theory Spec2Isabelle
  imports Main "HOL-Library.Sublist"
begin

section \<open>Common file disclosure scanner: a shallow embedding of main.py\<close>

text \<open>
  The scanner joins a base URL with each candidate filename, issues one HTTP GET per
  filename, keeps the bodies of the responses with status 200 in a dictionary keyed by
  URL, and optionally writes a plain-text report.

  Python strings are modelled as \<open>string\<close>, Python's unbounded integers as \<open>int\<close>,
  and every call that can raise returns a sum \<open>exn + 'a\<close> with \<open>Inl\<close> the exception.
\<close>

subsection \<open>Exceptions\<close>

text \<open>
  The exception classes that the handlers of main.py tell apart. The first five are
  classes of \<open>requests.exceptions\<close>, all subclasses of \<open>RequestException\<close>:
  \<open>HTTPError\<close> is what \<open>raise_for_status\<close> raises, \<open>Timeout\<close>, \<open>ConnectionError\<close>
  (connection refused, DNS failure) and \<open>SSLError\<close> are the transport failures, and
  \<open>RequestException\<close> stands for any other subclass. \<open>ValueError\<close> and \<open>OSError\<close> are
  the builtin classes and \<open>OtherException\<close> is any other subclass of \<open>Exception\<close>.
  Interrupts delivered by a signal (\<open>KeyboardInterrupt\<close>) are not library failures
  and are outside the model.
\<close>

datatype exn =
    HTTPError
  | Timeout
  | ConnectionError
  | SSLError
  | RequestException
  | ValueError
  | OSError
  | OtherException

fun is_RequestException :: "exn \<Rightarrow> bool" where
  "is_RequestException HTTPError = True"
| "is_RequestException Timeout = True"
| "is_RequestException ConnectionError = True"
| "is_RequestException SSLError = True"
| "is_RequestException RequestException = True"
| "is_RequestException ValueError = False"
| "is_RequestException OSError = False"
| "is_RequestException OtherException = False"

subsection \<open>urljoin\<close>

text \<open>
  \<^verbatim>\<open>
  def urljoin(base, url):
      if base.endswith('/'):
          base = base[:-1]
      if url.startswith('/'):
          url = url[1:]
      return f"{base}/{url}"
  \<close>
  \<open>endswith\<close> and \<open>startswith\<close> are false on the empty string, \<open>base[:-1]\<close> drops the
  last character and \<open>url[1:]\<close> the first.
\<close>

definition endswith_slash :: "string \<Rightarrow> bool" where
  "endswith_slash s = (s \<noteq> [] \<and> last s = CHR ''/'')"

definition startswith_slash :: "string \<Rightarrow> bool" where
  "startswith_slash s = (case s of [] \<Rightarrow> False | c # _ \<Rightarrow> c = CHR ''/'')"

definition urljoin :: "string \<Rightarrow> string \<Rightarrow> string" where
  "urljoin base url =
     (let base = (if endswith_slash base then butlast base else base);
          url = (if startswith_slash url then tl url else url)
      in base @ ''/'' @ url)"

text \<open>
  The join as the specification words it: every trailing slash of the base and every
  leading slash of the filename is stripped, and the two are put together with one slash.
\<close>

definition rstrip_slashes :: "string \<Rightarrow> string" where
  "rstrip_slashes s = rev (dropWhile (\<lambda>c. c = CHR ''/'') (rev s))"

definition lstrip_slashes :: "string \<Rightarrow> string" where
  "lstrip_slashes s = dropWhile (\<lambda>c. c = CHR ''/'') s"

definition urljoin_spec :: "string \<Rightarrow> string \<Rightarrow> string" where
  "urljoin_spec base url = rstrip_slashes base @ ''/'' @ lstrip_slashes url"

subsection \<open>URL parsing (urllib.parse.urlparse) and validate_url\<close>

text \<open>
  Modelled from the spec: \<open>urllib.parse.urlparse\<close> is a function of the Python standard
  library and is not part of src/; the specification only says that a URL string "parses
  into a scheme and a host component". The definitions below follow the library's
  \<open>urlsplit\<close> (CPython 3.11) for the two components that \<open>validate_url\<close> reads, the
  scheme and the network location \<open>netloc\<close>:
  \<^item> leading C0 control characters and spaces are stripped, and tab, carriage return and
    newline are removed everywhere;
  \<^item> if the text before the first colon is not empty, starts with an ASCII letter and
    consists of letters, digits, plus, minus and dot, it is the scheme (lower-cased) and
    parsing goes on after the colon;
  \<^item> if what remains starts with two slashes, the netloc is what follows them up to the
    first slash, question mark or hash;
  \<^item> a netloc with only one of the two square brackets raises \<open>ValueError\<close>.
  Two further checks of the library, of a bracketed host (\<open>_check_bracketed_host\<close>) and of
  a non-ASCII netloc under NFKC normalisation (\<open>_checknetloc\<close>), are parameters of the
  environment: each says whether the library raises \<open>ValueError\<close>.
\<close>

record response =
  status_code :: int
  response_text :: string

text \<open>
  The environment: everything the program calls that is outside main.py.
  \<^item> \<open>http_get h u t\<close> is the outcome of \<open>requests.get(u, timeout=t, allow_redirects=True)\<close>
    when \<open>h\<close> is the list of the requests made before it in this run: the final response
    (after redirects) or the exception raised;
  \<^item> \<open>check_bracketed_host\<close> and \<open>checknetloc\<close> are the two library checks above;
  \<^item> \<open>open_w p\<close> is the exception raised by \<open>open(p, "w")\<close>, if any;
    \<open>file_write p cur s\<close> the one raised by writing \<open>s\<close> to the file \<open>p\<close> that holds \<open>cur\<close>;
    \<open>file_close p cur\<close> the one raised when the file is closed.
\<close>

record env =
  http_get :: "(string \<times> int) list \<Rightarrow> string \<Rightarrow> int \<Rightarrow> exn + response"
  check_bracketed_host :: "string \<Rightarrow> bool"
  checknetloc :: "string \<Rightarrow> bool"
  open_w :: "string \<Rightarrow> exn option"
  file_write :: "string \<Rightarrow> string \<Rightarrow> string \<Rightarrow> exn option"
  file_close :: "string \<Rightarrow> string \<Rightarrow> exn option"

record parse_result =
  scheme :: string
  netloc :: string

definition ascii_lowercase :: string where
  "ascii_lowercase = ''abcdefghijklmnopqrstuvwxyz''"

definition ascii_uppercase :: string where
  "ascii_uppercase = ''ABCDEFGHIJKLMNOPQRSTUVWXYZ''"

definition scheme_chars :: string where
  "scheme_chars = ascii_lowercase @ ascii_uppercase @ ''0123456789+-.''"

definition is_ascii_alpha :: "char \<Rightarrow> bool" where
  "is_ascii_alpha c = (c \<in> set ascii_lowercase \<or> c \<in> set ascii_uppercase)"

definition lower_char :: "char \<Rightarrow> char" where
  "lower_char c =
     (case map_of (zip ascii_uppercase ascii_lowercase) c of Some l \<Rightarrow> l | None \<Rightarrow> c)"

definition c0_control_or_space :: "char \<Rightarrow> bool" where
  "c0_control_or_space c = (of_char c \<le> (32::nat))"

definition unsafe_url_byte :: "char \<Rightarrow> bool" where
  "unsafe_url_byte c = (c = CHR 0x09 \<or> c = CHR 0x0D \<or> c = CHR 0x0A)"

definition is_ascii :: "string \<Rightarrow> bool" where
  "is_ascii s = list_all (\<lambda>c. of_char c < (128::nat)) s"

definition split_scheme :: "string \<Rightarrow> string \<times> string" where
  "split_scheme u =
     (let pre = takeWhile (\<lambda>c. c \<noteq> CHR '':'') u
      in if CHR '':'' \<in> set u \<and> pre \<noteq> [] \<and> is_ascii_alpha (hd u) \<and>
            list_all (\<lambda>c. c \<in> set scheme_chars) pre
         then (map lower_char pre, drop (length pre + 1) u)
         else ([], u))"

definition splitnetloc :: "string \<Rightarrow> string" where
  "splitnetloc u = takeWhile (\<lambda>c. c \<notin> set ''/?#'') (drop 2 u)"

definition bracketed_host :: "string \<Rightarrow> string" where
  "bracketed_host n =
     takeWhile (\<lambda>c. c \<noteq> CHR '']'') (tl (dropWhile (\<lambda>c. c \<noteq> CHR ''['') n))"

definition urlparse :: "env \<Rightarrow> string \<Rightarrow> exn + parse_result" where
  "urlparse env u0 =
     (let u1 = dropWhile c0_control_or_space u0;
          u2 = filter (\<lambda>c. \<not> unsafe_url_byte c) u1;
          (sch, u3) = split_scheme u2;
          nl = (if take 2 u3 = ''//'' then splitnetloc u3 else [])
      in if (CHR ''['' \<in> set nl \<and> CHR '']'' \<notin> set nl) \<or>
            (CHR '']'' \<in> set nl \<and> CHR ''['' \<notin> set nl)
         then Inl ValueError
         else if CHR ''['' \<in> set nl \<and> CHR '']'' \<in> set nl \<and>
                 check_bracketed_host env (bracketed_host nl)
         then Inl ValueError
         else if nl \<noteq> [] \<and> \<not> is_ascii nl \<and> checknetloc env nl
         then Inl ValueError
         else Inr \<lparr>scheme = sch, netloc = nl\<rparr>)"

text \<open>
  \<^verbatim>\<open>
  def validate_url(url):
      try:
          result = urlparse(url)
          return all([result.scheme, result.netloc])
      except:
          return False
  \<close>
  A string is true in Python when it is not empty. The bare \<open>except\<close> catches every
  exception.
\<close>

definition truthy :: "string \<Rightarrow> bool" where
  "truthy s = (s \<noteq> [])"

definition validate_url :: "env \<Rightarrow> string \<Rightarrow> exn + bool" where
  "validate_url env u =
     (case urlparse env u of
        Inr result \<Rightarrow> Inr (list_all truthy [scheme result, netloc result])
      | Inl e \<Rightarrow> Inr False)"

text \<open>
  Modelled from the spec: the host of a parse result is a property of the library's result
  class, outside src/. \<open>host_component\<close> follows \<open>_hostinfo\<close> of CPython 3.11: the
  user information, everything up to the last \<open>@\<close> of the netloc, is dropped; the host
  is what stands between square brackets if there is an opening bracket, and otherwise
  what stands before the first colon (the port follows it). The \<open>hostname\<close> attribute
  is \<open>None\<close> exactly when this string is empty.
\<close>

definition host_component :: "parse_result \<Rightarrow> string" where
  "host_component r =
     (let hostinfo = rev (takeWhile (\<lambda>c. c \<noteq> CHR ''@'') (rev (netloc r)))
      in if CHR ''['' \<in> set hostinfo
         then takeWhile (\<lambda>c. c \<noteq> CHR '']'') (tl (dropWhile (\<lambda>c. c \<noteq> CHR ''['') hostinfo))
         else takeWhile (\<lambda>c. c \<noteq> CHR '':'') hostinfo)"

subsection \<open>The probe: check_file_exists\<close>

text \<open>
  The world that the program changes: the requests made so far, each with its URL and
  timeout, and the contents of the files it has written.
\<close>

record world =
  requests :: "(string \<times> int) list"
  fs :: "string \<Rightarrow> string option"

type_synonym probe_result = "bool \<times> string \<times> string option"

definition requests_get :: "env \<Rightarrow> world \<Rightarrow> string \<Rightarrow> int \<Rightarrow> (exn + response) \<times> world" where
  "requests_get env w target timeout =
     (http_get env (requests w) target timeout,
      w\<lparr>requests := requests w @ [(target, timeout)]\<rparr>)"

text \<open>
  \<open>Response.raise_for_status\<close> of the requests library raises \<open>HTTPError\<close> for the status
  codes 400 to 599 and returns otherwise.
\<close>

definition raise_for_status :: "response \<Rightarrow> exn + unit" where
  "raise_for_status r =
     (if 400 \<le> status_code r \<and> status_code r < 600 then Inl HTTPError else Inr ())"

text \<open>
  \<^verbatim>\<open>
  def check_file_exists(url, filename, timeout=5):
      try:
          target_url = urljoin(url, filename)
          response = requests.get(target_url, timeout=timeout, allow_redirects=True)
          response.raise_for_status()
          if response.status_code == 200:
              return True, target_url, response.text
          else:
              return False, target_url, None
      except requests.exceptions.RequestException as e:
          return False, target_url, None
      except Exception as e:
          return False, target_url, None
  \<close>
  \<open>check_file_exists_try\<close> is the body of the \<open>try\<close> after the assignment of
  \<open>target_url\<close> (\<open>urljoin\<close> cannot raise, so the handlers always find it bound), and
  \<open>check_file_exists\<close> adds the two handlers. The logging calls have no effect on the
  result and are left out.
\<close>

definition check_file_exists_try ::
  "env \<Rightarrow> world \<Rightarrow> string \<Rightarrow> int \<Rightarrow> (exn + probe_result) \<times> world" where
  "check_file_exists_try env w target_url timeout =
     (case requests_get env w target_url timeout of
        (Inl e, w') \<Rightarrow> (Inl e, w')
      | (Inr response, w') \<Rightarrow>
          (case raise_for_status response of
             Inl e \<Rightarrow> (Inl e, w')
           | Inr _ \<Rightarrow>
               if status_code response = 200
               then (Inr (True, target_url, Some (response_text response)), w')
               else (Inr (False, target_url, None), w')))"

definition check_file_exists ::
  "env \<Rightarrow> world \<Rightarrow> string \<Rightarrow> string \<Rightarrow> int \<Rightarrow> (exn + probe_result) \<times> world" where
  "check_file_exists env w url filename timeout =
     (let target_url = urljoin url filename
      in case check_file_exists_try env w target_url timeout of
           (Inr r, w') \<Rightarrow> (Inr r, w')
         | (Inl e, w') \<Rightarrow>
             if is_RequestException e then (Inr (False, target_url, None), w')
             else (Inr (False, target_url, None), w'))"

subsection \<open>The report dictionary and the scan loop\<close>

text \<open>
  \<open>found_files\<close> is a Python dictionary, which keeps its keys in insertion order:
  an association list with one pair per key. \<open>found_files[url] = content\<close> replaces the
  value of a key that is present, at its place, and appends a new key at the end.
\<close>

type_synonym report = "(string \<times> string option) list"

fun dict_setitem :: "('k \<times> 'v) list \<Rightarrow> 'k \<Rightarrow> 'v \<Rightarrow> ('k \<times> 'v) list" where
  "dict_setitem [] k v = [(k, v)]"
| "dict_setitem ((k', v') # d) k v =
     (if k' = k then (k', v) # d else (k', v') # dict_setitem d k v)"

text \<open>
  \<^verbatim>\<open>
  found_files = {}
  for filename in args.files:
      exists, url, content = check_file_exists(args.url, filename, args.timeout)
      if exists:
          found_files[url] = content
  \<close>
  An exception that left \<open>check_file_exists\<close> would leave the loop as well.
\<close>

fun scan_loop ::
  "env \<Rightarrow> string \<Rightarrow> int \<Rightarrow> string list \<Rightarrow> world \<Rightarrow> report \<Rightarrow> (exn + report) \<times> world" where
  "scan_loop env base timeout [] w found_files = (Inr found_files, w)"
| "scan_loop env base timeout (filename # rest) w found_files =
     (case check_file_exists env w base filename timeout of
        (Inl e, w') \<Rightarrow> (Inl e, w')
      | (Inr (exists, url, content), w') \<Rightarrow>
          scan_loop env base timeout rest w'
            (if exists then dict_setitem found_files url content else found_files))"

text \<open>
  The outcome of one probe as the specification classifies it, and the list of the
  outcomes of the probes of a filename list, the first made after the requests \<open>h\<close>.
\<close>

definition classify :: "string \<Rightarrow> exn + response \<Rightarrow> probe_result" where
  "classify target outcome =
     (case outcome of
        Inr r \<Rightarrow> if status_code r = 200 then (True, target, Some (response_text r))
                 else (False, target, None)
      | Inl e \<Rightarrow> (False, target, None))"

fun probe_results ::
  "env \<Rightarrow> (string \<times> int) list \<Rightarrow> string \<Rightarrow> int \<Rightarrow> string list \<Rightarrow> probe_result list" where
  "probe_results env h base timeout [] = []"
| "probe_results env h base timeout (filename # rest) =
     classify (urljoin base filename) (http_get env h (urljoin base filename) timeout) #
     probe_results env (h @ [(urljoin base filename, timeout)]) base timeout rest"

text \<open>
  The outcome of the HTTP GET of the probe of \<open>files ! i\<close>: the requests before it are
  \<open>h\<close> and one request for each of the filenames before it.
\<close>

definition nth_outcome ::
  "env \<Rightarrow> (string \<times> int) list \<Rightarrow> string \<Rightarrow> int \<Rightarrow> string list \<Rightarrow> nat \<Rightarrow> exn + response" where
  "nth_outcome env h base timeout files i =
     http_get env (h @ map (\<lambda>f. (urljoin base f, timeout)) (take i files))
       (urljoin base (files ! i)) timeout"

definition insert_found :: "report \<Rightarrow> probe_result \<Rightarrow> report" where
  "insert_found d r = (case r of (exists, url, content) \<Rightarrow>
     if exists then dict_setitem d url content else d)"

definition found_entries :: "probe_result list \<Rightarrow> (string \<times> string option) list" where
  "found_entries rs = map snd (filter fst rs)"

fun first_occurrences :: "'a list \<Rightarrow> 'a list" where
  "first_occurrences [] = []"
| "first_occurrences (x # xs) = x # removeAll x (first_occurrences xs)"

subsection \<open>The output file and main\<close>

record args =
  args_url :: string
  args_files :: "string list"
  args_timeout :: int
  args_verbose :: bool
  args_output :: "string option"

definition newline :: string where
  "newline = [CHR 0x0A]"

text \<open>An f-string prints \<open>None\<close> as the word None.\<close>

definition format_content :: "string option \<Rightarrow> string" where
  "format_content c = (case c of None \<Rightarrow> ''None'' | Some s \<Rightarrow> s)"

definition entry_writes :: "string \<times> string option \<Rightarrow> string list" where
  "entry_writes e = (case e of (url, content) \<Rightarrow>
     [''URL: '' @ url @ newline,
      ''Content:'' @ newline @ format_content content @ newline,
      replicate 40 (CHR ''-'') @ newline])"

text \<open>
  \<^verbatim>\<open>
  if found_files:
      f.write("Potentially sensitive files found:\n")
      for url, content in found_files.items():
          f.write(f"URL: {url}\n")
          f.write(f"Content:\n{content}\n")
          f.write("-" * 40 + "\n")
  else:
      f.write("No sensitive files found.\n")
  \<close>
  \<open>report_writes\<close> is the list of the strings given to \<open>f.write\<close>, in order.
\<close>

definition report_writes :: "report \<Rightarrow> string list" where
  "report_writes found_files =
     (if found_files \<noteq> []
      then (''Potentially sensitive files found:'' @ newline) #
           concat (map entry_writes found_files)
      else [''No sensitive files found.'' @ newline])"

definition file_content :: "world \<Rightarrow> string \<Rightarrow> string" where
  "file_content w path = (case fs w path of Some c \<Rightarrow> c | None \<Rightarrow> [])"

definition open_file :: "env \<Rightarrow> world \<Rightarrow> string \<Rightarrow> (exn + unit) \<times> world" where
  "open_file env w path =
     (case open_w env path of
        Some e \<Rightarrow> (Inl e, w)
      | None \<Rightarrow> (Inr (), w\<lparr>fs := (fs w)(path \<mapsto> [])\<rparr>))"

definition write_file :: "env \<Rightarrow> world \<Rightarrow> string \<Rightarrow> string \<Rightarrow> (exn + unit) \<times> world" where
  "write_file env w path s =
     (case file_write env path (file_content w path) s of
        Some e \<Rightarrow> (Inl e, w)
      | None \<Rightarrow> (Inr (), w\<lparr>fs := (fs w)(path \<mapsto> file_content w path @ s)\<rparr>))"

definition close_file :: "env \<Rightarrow> world \<Rightarrow> string \<Rightarrow> (exn + unit) \<times> world" where
  "close_file env w path =
     (case file_close env path (file_content w path) of
        Some e \<Rightarrow> (Inl e, w)
      | None \<Rightarrow> (Inr (), w))"

fun write_all :: "env \<Rightarrow> string \<Rightarrow> string list \<Rightarrow> world \<Rightarrow> (exn + unit) \<times> world" where
  "write_all env path [] w = (Inr (), w)"
| "write_all env path (s # ss) w =
     (case write_file env w path s of
        (Inl e, w') \<Rightarrow> (Inl e, w')
      | (Inr _, w') \<Rightarrow> write_all env path ss w')"

text \<open>
  The \<open>with open(args.output, "w") as f\<close> block: the file is opened (and emptied), the
  strings are written, and the file is closed when the block is left, also by an
  exception; an exception of the closing replaces the one that left the block.
\<close>

definition write_report :: "env \<Rightarrow> world \<Rightarrow> string \<Rightarrow> report \<Rightarrow> (exn + unit) \<times> world" where
  "write_report env w path found_files =
     (case open_file env w path of
        (Inl e, w1) \<Rightarrow> (Inl e, w1)
      | (Inr _, w1) \<Rightarrow>
          (case write_all env path (report_writes found_files) w1 of
             (Inl e, w2) \<Rightarrow>
               (case close_file env w2 path of
                  (Inl e', w3) \<Rightarrow> (Inl e', w3)
                | (Inr _, w3) \<Rightarrow> (Inl e, w3))
           | (Inr _, w2) \<Rightarrow> close_file env w2 path))"

text \<open>
  \<^verbatim>\<open>
  def main():
      args = parser.parse_args()
      if not validate_url(args.url):
          logging.error("Invalid URL provided. ...")
          sys.exit(1)
      found_files = {}
      for filename in args.files: ...
      if args.output:
        try:
          with open(args.output, "w") as f: ...
        except Exception as e:
          logging.error(f"Error writing to output file: {e}")
  \<close>
  \<open>main\<close> starts from the parsed arguments and returns the exit status of the process
  with the final world: 1 from \<open>sys.exit(1)\<close>, 1 as well if an exception left \<open>main\<close>, and
  0 when \<open>main\<close> returns. \<open>if args.output\<close> is false for \<open>None\<close> and for the empty string.
  The handler of the output block catches every exception of the block.
\<close>

definition main :: "env \<Rightarrow> args \<Rightarrow> world \<Rightarrow> int \<times> world" where
  "main env args w =
     (case validate_url env (args_url args) of
        Inl e \<Rightarrow> (1, w)
      | Inr valid \<Rightarrow>
          if \<not> valid then (1, w)
          else
            (case scan_loop env (args_url args) (args_timeout args) (args_files args) w [] of
               (Inl e, w') \<Rightarrow> (1, w')
             | (Inr found_files, w') \<Rightarrow>
                 (case args_output args of
                    None \<Rightarrow> (0, w')
                  | Some path \<Rightarrow>
                      if path = [] then (0, w')
                      else (case write_report env w' path found_files of
                              (Inl e, w'') \<Rightarrow> (0, w'')
                            | (Inr _, w'') \<Rightarrow> (0, w'')))))"

text \<open>
  \<^verbatim>\<open>
  COMMON_FILES = [".env", "docker-compose.yml", "config.php", "wp-config.php",
      ".git/config", "application.yml", "application.properties", "database.yml",
      "web.config", "config.ini", "secrets.yml"]

  def setup_argparse():
      parser = argparse.ArgumentParser(description="...")
      parser.add_argument("url", help="...")
      parser.add_argument("-f", "--files", nargs="+", help="...", default=COMMON_FILES)
      parser.add_argument("-t", "--timeout", type=int, default=5, help="...")
      parser.add_argument("-v", "--verbose", action="store_true", help="...")
      parser.add_argument("-o", "--output", help="...")
      return parser
  \<close>
  The command line as argparse reads it: the strings it has matched with each argument.
  The URL is a required positional argument, \<open>-f\<close> needs at least one filename, and the
  string given to \<open>-t\<close> goes through \<open>int\<close>: either \<open>int\<close> converts it to a value or
  \<open>int\<close> rejects it. On a command line that it rejects, argparse prints the usage and
  ends the process with status 2. The help option, with which argparse prints the usage
  and ends the process with status 0, is left out.
\<close>

definition COMMON_FILES :: "string list" where
  "COMMON_FILES =
     [''.env'', ''docker-compose.yml'', ''config.php'', ''wp-config.php'', ''.git/config'',
      ''application.yml'', ''application.properties'', ''database.yml'', ''web.config'',
      ''config.ini'', ''secrets.yml'']"

datatype timeout_option =
    TimeoutOmitted
  | TimeoutValue int
  | TimeoutRejected string

record command_line =
  cl_url :: "string option"
  cl_files :: "string list option"
  cl_timeout :: timeout_option
  cl_verbose :: bool
  cl_output :: "string option"

definition parse_args :: "command_line \<Rightarrow> int + args" where
  "parse_args cl =
     (case cl_url cl of
        None \<Rightarrow> Inl 2
      | Some u \<Rightarrow>
          if cl_files cl = Some [] then Inl 2
          else
            (case cl_timeout cl of
               TimeoutRejected s \<Rightarrow> Inl 2
             | TimeoutOmitted \<Rightarrow>
                 Inr \<lparr>args_url = u,
                      args_files = (case cl_files cl of None \<Rightarrow> COMMON_FILES | Some names \<Rightarrow> names),
                      args_timeout = 5,
                      args_verbose = cl_verbose cl,
                      args_output = cl_output cl\<rparr>
             | TimeoutValue n \<Rightarrow>
                 Inr \<lparr>args_url = u,
                      args_files = (case cl_files cl of None \<Rightarrow> COMMON_FILES | Some names \<Rightarrow> names),
                      args_timeout = n,
                      args_verbose = cl_verbose cl,
                      args_output = cl_output cl\<rparr>))"

text \<open>
  The whole of \<open>main()\<close>: \<open>parser.parse_args()\<close>, which may end the process, and then the
  part modelled by \<open>main\<close> above.
\<close>

definition main_process :: "env \<Rightarrow> command_line \<Rightarrow> world \<Rightarrow> int \<times> world" where
  "main_process env cl w =
     (case parse_args cl of
        Inl status \<Rightarrow> (status, w)
      | Inr args \<Rightarrow> main env args w)"

subsection \<open>Stubbed environments\<close>

text \<open>
  The stub of the specification's end-to-end test: the server answers 200 for
  \<open>/.env\<close> and 404 for \<open>/missing.txt\<close> of the host \<open>test.local\<close>; any other request fails
  with a connection error. The library checks never raise and the output file can be
  written.
\<close>

definition stub_env :: env where
  "stub_env =
     \<lparr>http_get = (\<lambda>h u t.
        if u = ''http://test.local/.env''
        then Inr \<lparr>status_code = 200, response_text = ''SECRET=1''\<rparr>
        else if u = ''http://test.local/missing.txt''
        then Inr \<lparr>status_code = 404, response_text = ''Not Found''\<rparr>
        else Inl ConnectionError),
      check_bracketed_host = (\<lambda>_. False),
      checknetloc = (\<lambda>_. False),
      open_w = (\<lambda>_. None),
      file_write = (\<lambda>_ _ _. None),
      file_close = (\<lambda>_ _. None)\<rparr>"

text \<open>
  A server whose answer for \<open>/.env\<close> changes after the first request of the run, and
  a file layer on which no file can be opened for writing.
\<close>

definition changing_env :: env where
  "changing_env =
     stub_env\<lparr>http_get := (\<lambda>h u t.
        if u = ''http://test.local/.env''
        then Inr \<lparr>status_code = 200,
                  response_text = (if h = [] then ''first'' else ''second'')\<rparr>
        else Inr \<lparr>status_code = 200, response_text = ''other''\<rparr>)\<rparr>"

definition readonly_env :: env where
  "readonly_env = stub_env\<lparr>open_w := (\<lambda>_. Some OSError)\<rparr>"

definition empty_world :: world where
  "empty_world = \<lparr>requests = [], fs = (\<lambda>_. None)\<rparr>"

text \<open>
  The arguments of the end-to-end test: the two filenames, the default timeout and an
  output file.
\<close>

definition valid_args :: args where
  "valid_args = \<lparr>args_url = ''http://test.local'', args_files = [''.env'', ''missing.txt''],
     args_timeout = 5, args_verbose = False, args_output = Some ''out.txt''\<rparr>"

text \<open>
  Command lines of the end-to-end test: the URL with an output file, the same with a URL
  that has no scheme, and the same with a timeout that is not an integer, as in
  \<open>main.py -t abc http://test.local\<close>.
\<close>

definition test_command_line :: command_line where
  "test_command_line =
     \<lparr>cl_url = Some ''http://test.local'', cl_files = Some [''.env'', ''missing.txt''],
      cl_timeout = TimeoutOmitted, cl_verbose = False, cl_output = Some ''out.txt''\<rparr>"

definition bad_timeout_command_line :: command_line where
  "bad_timeout_command_line =
     \<lparr>cl_url = Some ''http://test.local'', cl_files = None,
      cl_timeout = TimeoutRejected ''abc'', cl_verbose = False, cl_output = None\<rparr>"

subsection \<open>Properties of urljoin\<close>

lemma rstrip_slashes_no_slash:
  "\<not> endswith_slash s \<Longrightarrow> rstrip_slashes s = s"
  by (cases s rule: rev_cases) (simp_all add: endswith_slash_def rstrip_slashes_def)

lemma lstrip_slashes_no_slash:
  "\<not> startswith_slash s \<Longrightarrow> lstrip_slashes s = s"
  by (cases s) (simp_all add: startswith_slash_def lstrip_slashes_def)

lemma rstrip_slashes_one:
  assumes "endswith_slash s" and "\<not> suffix ''//'' s"
  shows "rstrip_slashes s = butlast s"
proof -
  from assms(1) obtain t where s: "s = t @ ''/''"
    by (cases s rule: rev_cases) (auto simp: endswith_slash_def)
  with assms(2) have "\<not> endswith_slash t"
    by (cases t rule: rev_cases) (auto simp: endswith_slash_def suffix_def)
  then have "rstrip_slashes t = t"
    by (rule rstrip_slashes_no_slash)
  then show ?thesis
    using s by (simp add: rstrip_slashes_def)
qed

lemma lstrip_slashes_one:
  assumes "startswith_slash s" and "\<not> prefix ''//'' s"
  shows "lstrip_slashes s = tl s"
proof -
  from assms(1) obtain t where s: "s = CHR ''/'' # t"
    by (cases s) (auto simp: startswith_slash_def)
  with assms(2) have "\<not> startswith_slash t"
    by (cases t) (auto simp: startswith_slash_def)
  then have "lstrip_slashes t = t"
    by (rule lstrip_slashes_no_slash)
  then show ?thesis
    using s by (simp add: lstrip_slashes_def)
qed

text \<open>
  C3 (as stated): for all bases and filenames, urljoin equals stripping every trailing
  slash of the base and every leading slash of the filename and joining with one slash.
  The code strips one slash on each side only, so a base ending in two slashes keeps one
  of them and the result has two slashes between the base and the filename.
\<close>

theorem urljoin_strip_all_counterexample:
  "urljoin ''http://h//'' ''.env'' = ''http://h//.env'' \<and>
   urljoin_spec ''http://h//'' ''.env'' = ''http://h/.env'' \<and>
   urljoin ''http://h//'' ''.env'' \<noteq> urljoin_spec ''http://h//'' ''.env''"
  by (simp add: urljoin_def urljoin_spec_def endswith_slash_def startswith_slash_def
      rstrip_slashes_def lstrip_slashes_def)

text \<open>
  C3 (amended): urljoin removes at most one trailing slash of the base and at most one
  leading slash of the filename and joins the two with a single slash; when the base does
  not end in two slashes and the filename does not begin with two slashes, this is the
  join of the fully stripped base and filename. The function is total: it has a value,
  a string, on every pair of strings.
\<close>

theorem urljoin_single_slash:
  "urljoin base url =
     (if endswith_slash base then butlast base else base) @ ''/'' @
     (if startswith_slash url then tl url else url) \<and>
   (\<not> suffix ''//'' base \<and> \<not> prefix ''//'' url \<longrightarrow>
      urljoin base url = urljoin_spec base url)"
  by (simp add: urljoin_def urljoin_spec_def Let_def rstrip_slashes_no_slash
      lstrip_slashes_no_slash rstrip_slashes_one lstrip_slashes_one)

theorem urljoin_single_slash_witness:
  "\<not> suffix ''//'' ''http://test.local/'' \<and> \<not> prefix ''//'' ''/.env'' \<and>
   urljoin ''http://test.local/'' ''/.env'' = ''http://test.local/.env'' \<and>
   urljoin_spec ''http://test.local/'' ''/.env'' = ''http://test.local/.env''"
proof -
  have a: "\<not> suffix ''//'' ''http://test.local/''"
    by (simp add: suffix_to_prefix)
  have b: "\<not> prefix ''//'' ''/.env''"
    by simp
  have c: "urljoin ''http://test.local/'' ''/.env'' = ''http://test.local/.env''"
    by (simp add: urljoin_def endswith_slash_def startswith_slash_def)
  have "urljoin ''http://test.local/'' ''/.env'' = urljoin_spec ''http://test.local/'' ''/.env''"
    using urljoin_single_slash [of "''http://test.local/''" "''/.env''", THEN conjunct2] a b
    by blast
  with c have d: "urljoin_spec ''http://test.local/'' ''/.env'' = ''http://test.local/.env''"
    by (simp only:)
  show ?thesis by (intro conjI a b c d)
qed

subsection \<open>Properties of validate_url\<close>

lemmas urlparse_eval =
  validate_url_def urlparse_def split_scheme_def splitnetloc_def c0_control_or_space_def
  unsafe_url_byte_def is_ascii_alpha_def ascii_lowercase_def ascii_uppercase_def
  scheme_chars_def lower_char_def is_ascii_def truthy_def

lemma validate_url_True:
  "validate_url env u = Inr True \<Longrightarrow>
   \<exists>r. urlparse env u = Inr r \<and> scheme r \<noteq> [] \<and> netloc r \<noteq> []"
  by (auto simp: validate_url_def truthy_def split: sum.splits)

text \<open>
  C6 (as stated): validate_url returns true only if the string parses into a scheme and
  a host component that is not empty. The code tests the netloc, which also holds the
  user information and the port: "http://:80" has the netloc ":80" and no host, and
  validate_url accepts it.
\<close>

theorem validate_url_empty_host_counterexample:
  "validate_url stub_env ''http://:80'' = Inr True \<and>
   urlparse stub_env ''http://:80'' = Inr \<lparr>scheme = ''http'', netloc = '':80''\<rparr> \<and>
   host_component \<lparr>scheme = ''http'', netloc = '':80''\<rparr> = []"
  by (simp add: urlparse_eval host_component_def)

text \<open>
  C6 (amended): validate_url returns true only if the string parses into a scheme and a
  network location (\<open>netloc\<close>: the optional user information, the host and the optional
  port) that are both not empty; it accepts "http://example.com" and
  "https://example.com/path" and rejects "example.com", the empty string and "http://".
\<close>

theorem validate_url_scheme_and_netloc:
  "(validate_url env u = Inr True \<longrightarrow>
      (\<exists>r. urlparse env u = Inr r \<and> scheme r \<noteq> [] \<and> netloc r \<noteq> [])) \<and>
   validate_url env ''http://example.com'' = Inr True \<and>
   validate_url env ''https://example.com/path'' = Inr True \<and>
   validate_url env ''example.com'' = Inr False \<and>
   validate_url env [] = Inr False \<and>
   validate_url env ''http://'' = Inr False"
proof (intro conjI impI)
  assume "validate_url env u = Inr True"
  then show "\<exists>r. urlparse env u = Inr r \<and> scheme r \<noteq> [] \<and> netloc r \<noteq> []"
    by (rule validate_url_True)
next
  show "validate_url env ''http://example.com'' = Inr True"
    by (simp add: urlparse_eval)
next
  show "validate_url env ''https://example.com/path'' = Inr True"
    by (simp add: urlparse_eval)
next
  show "validate_url env ''example.com'' = Inr False"
    by (simp add: urlparse_eval)
next
  show "validate_url env [] = Inr False"
    by (simp add: urlparse_eval)
next
  show "validate_url env ''http://'' = Inr False"
    by (simp add: urlparse_eval)
qed

theorem validate_url_scheme_and_netloc_witness:
  "validate_url stub_env ''https://example.com/path'' = Inr True \<and>
   urlparse stub_env ''https://example.com/path'' =
     Inr \<lparr>scheme = ''https'', netloc = ''example.com''\<rparr>"
proof -
  have a: "validate_url stub_env ''https://example.com/path'' = Inr True"
    using validate_url_scheme_and_netloc [of stub_env "''https://example.com/path''"]
    by (simp only:)
  have b: "urlparse stub_env ''https://example.com/path'' =
     Inr \<lparr>scheme = ''https'', netloc = ''example.com''\<rparr>"
    by (simp add: urlparse_eval)
  show ?thesis by (intro conjI a b)
qed

text \<open>
  C10: validate_url returns a boolean on every string and never raises; when the
  parser raises, the result is false.
\<close>

theorem validate_url_total:
  "(\<exists>b. validate_url env u = Inr b) \<and>
   (\<forall>e. urlparse env u = Inl e \<longrightarrow> validate_url env u = Inr False)"
  by (auto simp: validate_url_def split: sum.splits)

theorem validate_url_total_witness:
  "urlparse stub_env ''http://[::1'' = Inl ValueError \<and>
   validate_url stub_env ''http://[::1'' = Inr False"
proof -
  have a: "urlparse stub_env ''http://[::1'' = Inl ValueError"
    by (simp add: urlparse_eval)
  have b: "validate_url stub_env ''http://[::1'' = Inr False"
    using validate_url_total [of stub_env "''http://[::1''"] a by simp
  show ?thesis by (intro conjI a b)
qed

subsection \<open>Evaluation of the stubs\<close>

lemma urljoin_env: "urljoin ''http://test.local'' ''.env'' = ''http://test.local/.env''"
  by (simp add: urljoin_def endswith_slash_def startswith_slash_def)

lemma urljoin_missing:
  "urljoin ''http://test.local'' ''missing.txt'' = ''http://test.local/missing.txt''"
  by (simp add: urljoin_def endswith_slash_def startswith_slash_def)

lemma urljoin_slash_env: "urljoin ''http://test.local'' ''/.env'' = ''http://test.local/.env''"
  by (simp add: urljoin_def endswith_slash_def startswith_slash_def)

lemma urljoin_other: "urljoin ''http://test.local'' ''b'' = ''http://test.local/b''"
  by (simp add: urljoin_def endswith_slash_def startswith_slash_def)

lemma valid_test_local: "validate_url env ''http://test.local'' = Inr True"
  by (simp add: urlparse_eval)

lemma invalid_example: "validate_url env ''example.com'' = Inr False"
  by (simp add: urlparse_eval)

subsection \<open>Properties of check_file_exists\<close>

lemma check_file_exists_eq:
  "check_file_exists env w url filename timeout =
     (Inr (classify (urljoin url filename)
             (http_get env (requests w) (urljoin url filename) timeout)),
      w\<lparr>requests := requests w @ [(urljoin url filename, timeout)]\<rparr>)"
  by (simp add: check_file_exists_def check_file_exists_try_def requests_get_def
      raise_for_status_def classify_def Let_def split: sum.splits)

text \<open>
  C1: when the HTTP GET returns a response, check_file_exists returns found = true with
  the joined URL and the response body if the status is 200, and found = false with the
  joined URL and no body for every other status.
\<close>

theorem check_file_exists_found_iff_200:
  assumes "http_get env (requests w) (urljoin url filename) timeout = Inr r"
  shows "fst (check_file_exists env w url filename timeout) =
           (if status_code r = 200
            then Inr (True, urljoin url filename, Some (response_text r))
            else Inr (False, urljoin url filename, None))"
  using assms by (simp add: check_file_exists_eq classify_def)

theorem check_file_exists_found_iff_200_witness:
  "http_get stub_env (requests empty_world) (urljoin ''http://test.local'' ''.env'') 5 =
     Inr \<lparr>status_code = 200, response_text = ''SECRET=1''\<rparr> \<and>
   fst (check_file_exists stub_env empty_world ''http://test.local'' ''.env'' 5) =
     Inr (True, ''http://test.local/.env'', Some ''SECRET=1'') \<and>
   http_get stub_env (requests empty_world) (urljoin ''http://test.local'' ''missing.txt'') 5 =
     Inr \<lparr>status_code = 404, response_text = ''Not Found''\<rparr> \<and>
   fst (check_file_exists stub_env empty_world ''http://test.local'' ''missing.txt'' 5) =
     Inr (False, ''http://test.local/missing.txt'', None)"
proof -
  have u1: "urljoin ''http://test.local'' ''.env'' = ''http://test.local/.env''"
    by (simp add: urljoin_def endswith_slash_def startswith_slash_def)
  have u2: "urljoin ''http://test.local'' ''missing.txt'' = ''http://test.local/missing.txt''"
    by (simp add: urljoin_def endswith_slash_def startswith_slash_def)
  have a: "http_get stub_env (requests empty_world) (urljoin ''http://test.local'' ''.env'') 5 =
     Inr \<lparr>status_code = 200, response_text = ''SECRET=1''\<rparr>"
    by (simp add: u1 stub_env_def)
  have c: "http_get stub_env (requests empty_world) (urljoin ''http://test.local'' ''missing.txt'') 5 =
     Inr \<lparr>status_code = 404, response_text = ''Not Found''\<rparr>"
    by (simp add: u2 stub_env_def)
  have b: "fst (check_file_exists stub_env empty_world ''http://test.local'' ''.env'' 5) =
     Inr (True, ''http://test.local/.env'', Some ''SECRET=1'')"
    using check_file_exists_found_iff_200 [OF a] by (simp add: u1)
  have d: "fst (check_file_exists stub_env empty_world ''http://test.local'' ''missing.txt'' 5) =
     Inr (False, ''http://test.local/missing.txt'', None)"
    using check_file_exists_found_iff_200 [OF c] by (simp add: u2)
  show ?thesis by (intro conjI a b c d)
qed

subsection \<open>The scan loop and the report dictionary\<close>

lemma scan_loop_eq:
  "scan_loop env base t files w d =
     (Inr (foldl insert_found d (probe_results env (requests w) base t files)),
      w\<lparr>requests := requests w @ map (\<lambda>f. (urljoin base f, t)) files\<rparr>)"
proof (induction files arbitrary: w d)
  case Nil
  then show ?case by simp
next
  case (Cons f files)
  obtain ex u c where cl:
    "classify (urljoin base f) (http_get env (requests w) (urljoin base f) t) = (ex, u, c)"
    by (cases "classify (urljoin base f) (http_get env (requests w) (urljoin base f) t)")
  show ?case
    by (simp add: check_file_exists_eq cl Cons.IH insert_found_def)
qed

lemma length_probe_results:
  "length (probe_results env h base t files) = length files"
  by (induction files arbitrary: h) simp_all

lemma probe_results_nth:
  "i < length files \<Longrightarrow>
   probe_results env h base t files ! i =
     classify (urljoin base (files ! i)) (nth_outcome env h base t files i)"
proof (induction files arbitrary: h i)
  case Nil
  then show ?case by simp
next
  case (Cons f files)
  show ?case
  proof (cases i)
    case 0
    then show ?thesis by (simp add: nth_outcome_def)
  next
    case (Suc j)
    with Cons.prems have "j < length files" by simp
    from Cons.IH [OF this, of "h @ [(urljoin base f, t)]"] Suc
    show ?thesis by (simp add: nth_outcome_def)
  qed
qed

lemma keys_dict_setitem:
  "fst ` set (dict_setitem d k v) = insert k (fst ` set d)"
  by (induction d k v rule: dict_setitem.induct) (auto split: if_splits)

lemma set_dict_setitem_subset:
  "set (dict_setitem d k v) \<subseteq> insert (k, v) (set d)"
  by (induction d k v rule: dict_setitem.induct) (auto split: if_splits)

lemma map_fst_dict_setitem:
  "map fst (dict_setitem d k v) =
     (if k \<in> set (map fst d) then map fst d else map fst d @ [k])"
  by (induction d k v rule: dict_setitem.induct) (auto split: if_splits)

lemma distinct_dict_setitem:
  "distinct (map fst d) \<Longrightarrow> distinct (map fst (dict_setitem d k v))"
  by (simp add: map_fst_dict_setitem)

lemma map_of_dict_setitem:
  "map_of (dict_setitem d k v) = (map_of d)(k \<mapsto> v)"
  by (induction d k v rule: dict_setitem.induct) (auto simp: fun_eq_iff)

lemma found_entries_Cons:
  "found_entries (r # rs) = (if fst r then snd r # found_entries rs else found_entries rs)"
  by (simp add: found_entries_def)

lemma insert_found_cases:
  "insert_found d r = (if fst r then dict_setitem d (fst (snd r)) (snd (snd r)) else d)"
  by (cases r) (simp add: insert_found_def)

lemma keys_foldl_insert_found:
  "fst ` set (foldl insert_found d rs) = fst ` set d \<union> fst ` set (found_entries rs)"
  by (induction rs arbitrary: d)
     (auto simp: found_entries_def insert_found_cases keys_dict_setitem)

lemma set_foldl_insert_found:
  "set (foldl insert_found d rs) \<subseteq> set d \<union> set (found_entries rs)"
proof (induction rs arbitrary: d)
  case Nil
  then show ?case by (simp add: found_entries_def)
next
  case (Cons r rs)
  show ?case
    using Cons.IH [of "insert_found d r"]
      set_dict_setitem_subset [of d "fst (snd r)" "snd (snd r)"]
    by (auto simp: found_entries_Cons insert_found_cases split: if_splits)
qed

lemma distinct_foldl_insert_found:
  "distinct (map fst d) \<Longrightarrow> distinct (map fst (foldl insert_found d rs))"
  by (induction rs arbitrary: d) (simp_all add: insert_found_cases distinct_dict_setitem)

lemma map_of_foldl_insert_found:
  "map_of (foldl insert_found d rs) = map_of d ++ map_of (rev (found_entries rs))"
proof (induction rs arbitrary: d)
  case Nil
  then show ?case by (simp add: found_entries_def)
next
  case (Cons r rs)
  show ?case
  proof (cases "fst r")
    case True
    obtain k v where kv: "snd r = (k, v)" by (cases "snd r")
    have step: "insert_found d r = dict_setitem d k v"
      using True kv by (simp add: insert_found_cases)
    have "map_of (foldl insert_found d (r # rs)) =
          map_of (dict_setitem d k v) ++ map_of (rev (found_entries rs))"
      by (simp add: step Cons.IH)
    also have "\<dots> = map_of d ++ (map_of (rev (found_entries rs) @ [(k, v)]))"
      by (simp add: map_of_dict_setitem fun_eq_iff map_add_def split: option.splits)
    also have "\<dots> = map_of d ++ map_of (rev (found_entries (r # rs)))"
      using True kv by (simp add: found_entries_Cons)
    finally show ?thesis .
  next
    case False
    then have "insert_found d r = d"
      by (simp add: insert_found_cases)
    with False show ?thesis
      by (simp add: Cons.IH found_entries_Cons)
  qed
qed

lemma removeAll_swap:
  "removeAll k (removeAll x xs) = removeAll x (removeAll k xs)"
  by (induction xs) auto

lemma removeAll_first_occurrences_append:
  "removeAll k (first_occurrences (a @ k # b)) = removeAll k (first_occurrences (a @ b))"
proof (induction a)
  case Nil
  then show ?case by simp
next
  case (Cons x a)
  have "removeAll k (removeAll x (first_occurrences (a @ k # b))) =
        removeAll k (removeAll x (first_occurrences (a @ b)))"
    by (simp add: removeAll_swap [of k x] Cons.IH)
  then show ?case using Cons.IH by (cases "k = x") simp_all
qed

lemma first_occurrences_repeat:
  "k \<in> set a \<Longrightarrow> first_occurrences (a @ k # b) = first_occurrences (a @ b)"
proof (induction a)
  case Nil
  then show ?case by simp
next
  case (Cons x a)
  show ?case
  proof (cases "x = k")
    case True
    then show ?thesis by (simp add: removeAll_first_occurrences_append)
  next
    case False
    with Cons show ?thesis by simp
  qed
qed

lemma first_occurrences_distinct:
  "distinct xs \<Longrightarrow> first_occurrences xs = xs"
  by (induction xs) simp_all

lemma map_fst_foldl_insert_found:
  "distinct (map fst d) \<Longrightarrow>
   map fst (foldl insert_found d rs) =
     first_occurrences (map fst d @ map fst (found_entries rs))"
proof (induction rs arbitrary: d)
  case Nil
  then show ?case by (simp add: found_entries_def first_occurrences_distinct)
next
  case (Cons r rs)
  show ?case
  proof (cases "fst r")
    case False
    then have "insert_found d r = d"
      by (simp add: insert_found_cases)
    with False Cons show ?thesis
      by (simp add: found_entries_Cons)
  next
    case True
    obtain k v where kv: "snd r = (k, v)" by (cases "snd r")
    have step: "insert_found d r = dict_setitem d k v"
      using True kv by (simp add: insert_found_cases)
    have dist: "distinct (map fst (dict_setitem d k v))"
      using Cons.prems by (rule distinct_dict_setitem)
    have "map fst (foldl insert_found d (r # rs)) =
          first_occurrences (map fst (dict_setitem d k v) @ map fst (found_entries rs))"
      using Cons.IH [OF dist] by (simp add: step)
    also have "\<dots> = first_occurrences (map fst d @ k # map fst (found_entries rs))"
      by (simp add: map_fst_dict_setitem first_occurrences_repeat)
    also have "\<dots> = first_occurrences (map fst d @ map fst (found_entries (r # rs)))"
      using True kv by (simp add: found_entries_Cons)
    finally show ?thesis .
  qed
qed

lemma classify_found:
  "fst (classify target outcome) \<longleftrightarrow> (\<exists>r. outcome = Inr r \<and> status_code r = 200)"
  by (cases outcome) (simp_all add: classify_def)

lemma classify_url:
  "fst (snd (classify target outcome)) = target"
  by (cases outcome) (simp_all add: classify_def)

lemma classify_content:
  "fst (classify target outcome) \<Longrightarrow> \<exists>body. snd (snd (classify target outcome)) = Some body"
  by (cases outcome) (simp_all add: classify_def split: if_splits)

lemma found_entries_keys:
  "k \<in> fst ` set (found_entries rs) \<longleftrightarrow>
     (\<exists>i<length rs. fst (rs ! i) \<and> fst (snd (rs ! i)) = k)"
proof -
  have "k \<in> fst ` set (found_entries rs) \<longleftrightarrow> (\<exists>r\<in>set rs. fst r \<and> fst (snd r) = k)"
    by (force simp: found_entries_def image_iff)
  also have "\<dots> \<longleftrightarrow> (\<exists>i<length rs. fst (rs ! i) \<and> fst (snd (rs ! i)) = k)"
    by (metis in_set_conv_nth)
  finally show ?thesis .
qed

lemma found_entries_content:
  "(u, c) \<in> set (found_entries (probe_results env h base t files)) \<Longrightarrow> \<exists>body. c = Some body"
proof (induction files arbitrary: h)
  case Nil
  then show ?case by (simp add: found_entries_def)
next
  case (Cons f files)
  let ?r = "classify (urljoin base f) (http_get env h (urljoin base f) t)"
  show ?case
  proof (cases "(u, c) \<in> set (found_entries (probe_results env (h @ [(urljoin base f, t)]) base t files))")
    case True
    then show ?thesis by (rule Cons.IH)
  next
    case False
    with Cons.prems have "fst ?r" and "snd ?r = (u, c)"
      by (auto simp: found_entries_Cons split: if_splits)
    with classify_content [of "urljoin base f" "http_get env h (urljoin base f) t"]
    show ?thesis by simp
  qed
qed

lemma scan_loop_found_files:
  assumes "fst (scan_loop env base t files w d) = Inr found_files"
  shows "found_files = foldl insert_found d (probe_results env (requests w) base t files)"
  using assms by (simp add: scan_loop_eq)

lemma report_content_Some:
  assumes "fst (scan_loop env base t files w []) = Inr found_files"
    and "(u, c) \<in> set found_files"
  shows "\<exists>body. c = Some body"
proof -
  have "found_files = foldl insert_found [] (probe_results env (requests w) base t files)"
    using assms(1) by (rule scan_loop_found_files)
  with assms(2) set_foldl_insert_found [of "[]" "probe_results env (requests w) base t files"]
  have "(u, c) \<in> set (found_entries (probe_results env (requests w) base t files))"
    by auto
  then show ?thesis by (rule found_entries_content)
qed

lemma stub_scan:
  "scan_loop stub_env ''http://test.local'' 5 [''.env'', ''missing.txt''] empty_world [] =
     (Inr [(''http://test.local/.env'', Some ''SECRET=1'')],
      \<lparr>requests = [(''http://test.local/.env'', 5), (''http://test.local/missing.txt'', 5)],
       fs = (\<lambda>_. None)\<rparr>)"
  by (simp add: check_file_exists_eq classify_def stub_env_def empty_world_def
      urljoin_env urljoin_missing)

lemma stub_scan_missing:
  "scan_loop stub_env ''http://test.local'' 5 [''missing.txt''] empty_world [] =
     (Inr [],
      \<lparr>requests = [(''http://test.local/missing.txt'', 5)], fs = (\<lambda>_. None)\<rparr>)"
  by (simp add: check_file_exists_eq classify_def stub_env_def empty_world_def urljoin_missing)

lemma changing_scan:
  "scan_loop changing_env ''http://test.local'' 5 [''.env'', ''b'', ''/.env''] empty_world [] =
     (Inr [(''http://test.local/.env'', Some ''second''), (''http://test.local/b'', Some ''other'')],
      \<lparr>requests = [(''http://test.local/.env'', 5), (''http://test.local/b'', 5),
                   (''http://test.local/.env'', 5)],
       fs = (\<lambda>_. None)\<rparr>)"
  by (simp add: check_file_exists_eq classify_def changing_env_def stub_env_def empty_world_def
      urljoin_env urljoin_other urljoin_slash_env)

subsection \<open>Properties of the scan\<close>

text \<open>
  C2: after the scan loop, a URL is a key of the report exactly when some probe of the
  loop was made for that URL and its HTTP GET returned a response (no exception) with
  status 200. Probes that fail or return another status add nothing.
\<close>

theorem report_membership:
  assumes "fst (scan_loop env base t files w []) = Inr found_files"
  shows "k \<in> fst ` set found_files \<longleftrightarrow>
           (\<exists>i<length files. urljoin base (files ! i) = k \<and>
              (\<exists>r. nth_outcome env (requests w) base t files i = Inr r \<and>
                   status_code r = 200))"
proof -
  let ?rs = "probe_results env (requests w) base t files"
  have "found_files = foldl insert_found [] ?rs"
    using assms by (rule scan_loop_found_files)
  then have "k \<in> fst ` set found_files \<longleftrightarrow> k \<in> fst ` set (found_entries ?rs)"
    by (simp add: keys_foldl_insert_found)
  also have "\<dots> \<longleftrightarrow> (\<exists>i<length files. fst (?rs ! i) \<and> fst (snd (?rs ! i)) = k)"
    by (simp add: found_entries_keys length_probe_results)
  also have "\<dots> \<longleftrightarrow> (\<exists>i<length files. urljoin base (files ! i) = k \<and>
              (\<exists>r. nth_outcome env (requests w) base t files i = Inr r \<and>
                   status_code r = 200))"
    by (auto simp: probe_results_nth classify_found classify_url)
  finally show ?thesis .
qed

theorem report_membership_witness:
  "fst (scan_loop stub_env ''http://test.local'' 5 [''.env'', ''missing.txt''] empty_world []) =
     Inr [(''http://test.local/.env'', Some ''SECRET=1'')] \<and>
   (\<exists>i<length [''.env'', ''missing.txt''].
      urljoin ''http://test.local'' ([''.env'', ''missing.txt''] ! i) = ''http://test.local/.env'' \<and>
      (\<exists>r. nth_outcome stub_env (requests empty_world) ''http://test.local'' 5
             [''.env'', ''missing.txt''] i = Inr r \<and> status_code r = 200)) \<and>
   \<not> (\<exists>i<length [''.env'', ''missing.txt''].
      urljoin ''http://test.local'' ([''.env'', ''missing.txt''] ! i) =
        ''http://test.local/missing.txt'' \<and>
      (\<exists>r. nth_outcome stub_env (requests empty_world) ''http://test.local'' 5
             [''.env'', ''missing.txt''] i = Inr r \<and> status_code r = 200))"
proof -
  have h: "fst (scan_loop stub_env ''http://test.local'' 5 [''.env'', ''missing.txt'']
             empty_world []) = Inr [(''http://test.local/.env'', Some ''SECRET=1'')]"
    by (simp only: stub_scan fst_conv)
  have m: "''http://test.local/.env'' \<in>
             fst ` set [(''http://test.local/.env'', Some ''SECRET=1'')]"
    by simp
  have nm: "''http://test.local/missing.txt'' \<notin>
             fst ` set [(''http://test.local/.env'', Some ''SECRET=1'')]"
    by simp
  note a = report_membership [OF h, THEN iffD1, OF m]
  note b = nm [unfolded report_membership [OF h]]
  show ?thesis by (intro conjI h a b)
qed

text \<open>
  C4: when the HTTP GET of a probe raises (a transport failure or any other exception),
  check_file_exists returns found = false with the joined URL and no body instead of
  raising; the scan loop never ends with an exception and makes one request for every
  filename of the list, whatever the outcomes of the probes.
\<close>

theorem probe_errors_do_not_abort:
  "(http_get env (requests w) (urljoin url filename) timeout = Inl e \<longrightarrow>
      check_file_exists env w url filename timeout =
        (Inr (False, urljoin url filename, None),
         w\<lparr>requests := requests w @ [(urljoin url filename, timeout)]\<rparr>)) \<and>
   (\<exists>d. fst (scan_loop env url timeout files w d0) = Inr d) \<and>
   requests (snd (scan_loop env url timeout files w d0)) =
     requests w @ map (\<lambda>f. (urljoin url f, timeout)) files"
  by (simp add: check_file_exists_eq classify_def scan_loop_eq)

theorem probe_errors_do_not_abort_witness:
  "http_get stub_env (requests empty_world) (urljoin ''http://test.local'' ''b'') 5 =
     Inl ConnectionError \<and>
   check_file_exists stub_env empty_world ''http://test.local'' ''b'' 5 =
     (Inr (False, urljoin ''http://test.local'' ''b'', None),
      empty_world\<lparr>requests :=
        requests empty_world @ [(urljoin ''http://test.local'' ''b'', 5)]\<rparr>)"
proof -
  have a: "http_get stub_env (requests empty_world) (urljoin ''http://test.local'' ''b'') 5 =
     Inl ConnectionError"
    by (simp add: urljoin_other stub_env_def)
  note b = probe_errors_do_not_abort [THEN conjunct1, THEN mp, OF a]
  show ?thesis by (intro conjI a b)
qed



text \<open>
  C9: the report has one entry per URL; its URLs stand in the order of their first
  successful probe, and the body stored for a URL is the one of its last successful probe.
\<close>

theorem report_one_entry_per_url:
  assumes "fst (scan_loop env base t files w []) = Inr found_files"
  shows "distinct (map fst found_files) \<and>
         map fst found_files =
           first_occurrences
             (map fst (found_entries (probe_results env (requests w) base t files))) \<and>
         map_of found_files =
           map_of (rev (found_entries (probe_results env (requests w) base t files)))"
proof -
  let ?rs = "probe_results env (requests w) base t files"
  have eq: "found_files = foldl insert_found [] ?rs"
    using assms by (rule scan_loop_found_files)
  have "distinct (map fst found_files)"
    unfolding eq by (rule distinct_foldl_insert_found) simp
  moreover have "map fst found_files = first_occurrences (map fst (found_entries ?rs))"
    unfolding eq using map_fst_foldl_insert_found [of "[]" ?rs] by simp
  moreover have "map_of found_files = map_of (rev (found_entries ?rs))"
    unfolding eq by (simp add: map_of_foldl_insert_found)
  ultimately show ?thesis by simp
qed

theorem report_one_entry_per_url_witness:
  "fst (scan_loop changing_env ''http://test.local'' 5 [''.env'', ''b'', ''/.env''] empty_world []) =
     Inr [(''http://test.local/.env'', Some ''second''), (''http://test.local/b'', Some ''other'')] \<and>
   found_entries (probe_results changing_env (requests empty_world) ''http://test.local'' 5
       [''.env'', ''b'', ''/.env'']) =
     [(''http://test.local/.env'', Some ''first''), (''http://test.local/b'', Some ''other''),
      (''http://test.local/.env'', Some ''second'')] \<and>
   (distinct (map fst [(''http://test.local/.env'', Some ''second''),
                        (''http://test.local/b'', Some ''other'')]) \<and>
    map fst [(''http://test.local/.env'', Some ''second''), (''http://test.local/b'', Some ''other'')] =
      first_occurrences (map fst (found_entries
        (probe_results changing_env (requests empty_world) ''http://test.local'' 5
           [''.env'', ''b'', ''/.env'']))) \<and>
    map_of [(''http://test.local/.env'', Some ''second''), (''http://test.local/b'', Some ''other'')] =
      map_of (rev (found_entries
        (probe_results changing_env (requests empty_world) ''http://test.local'' 5
           [''.env'', ''b'', ''/.env'']))))"
proof -
  have h: "fst (scan_loop changing_env ''http://test.local'' 5 [''.env'', ''b'', ''/.env'']
             empty_world []) =
     Inr [(''http://test.local/.env'', Some ''second''), (''http://test.local/b'', Some ''other'')]"
    by (simp only: changing_scan fst_conv)
  have e: "found_entries (probe_results changing_env (requests empty_world) ''http://test.local'' 5
       [''.env'', ''b'', ''/.env'']) =
     [(''http://test.local/.env'', Some ''first''), (''http://test.local/b'', Some ''other''),
      (''http://test.local/.env'', Some ''second'')]"
    by (simp add: found_entries_def classify_def changing_env_def stub_env_def empty_world_def
        urljoin_env urljoin_other urljoin_slash_env)
  note c = report_one_entry_per_url [OF h]
  show ?thesis by (intro conjI h e c)
qed

subsection \<open>Exit status of main\<close>

lemma validate_url_Inr: "\<exists>b. validate_url env u = Inr b"
  by (auto simp: validate_url_def split: sum.splits)

lemma main_invalid:
  "validate_url env (args_url args) \<noteq> Inr True \<Longrightarrow> main env args w = (1, w)"
  using validate_url_Inr [of env "args_url args"]
  by (auto simp: main_def)

lemma main_valid:
  "validate_url env (args_url args) = Inr True \<Longrightarrow> fst (main env args w) = 0"
  by (simp add: main_def scan_loop_eq split: option.splits prod.splits sum.splits)

lemma main_exit_status:
  "(fst (main env args w) \<noteq> 0 \<longleftrightarrow> validate_url env (args_url args) \<noteq> Inr True) \<and>
   (validate_url env (args_url args) \<noteq> Inr True \<longrightarrow> main env args w = (1, w)) \<and>
   (validate_url env (args_url args) = Inr True \<longrightarrow> fst (main env args w) = 0)"
  using main_invalid [of env args w] main_valid [of env args w]
  by (cases "validate_url env (args_url args) = Inr True") simp_all

lemma parse_test_command_line:
  "parse_args test_command_line = Inr valid_args"
  by (simp add: parse_args_def test_command_line_def valid_args_def)

lemma parse_invalid_url_command_line:
  "parse_args (test_command_line\<lparr>cl_url := Some ''example.com''\<rparr>) =
     Inr (valid_args\<lparr>args_url := ''example.com''\<rparr>)"
  by (simp add: parse_args_def test_command_line_def valid_args_def)

text \<open>
  C7 (as stated): the process exits with a status that is not zero exactly when the
  supplied URL fails validation, and with 0 on every other run. On the command line
  \<open>-t abc http://test.local\<close> the URL passes validation, yet argparse rejects the timeout
  and the process ends with status 2, before validation and before any request.
\<close>

theorem exit_status_bad_timeout_counterexample:
  "cl_url bad_timeout_command_line = Some ''http://test.local'' \<and>
   validate_url stub_env ''http://test.local'' = Inr True \<and>
   main_process stub_env bad_timeout_command_line empty_world = (2, empty_world)"
  by (simp add: bad_timeout_command_line_def valid_test_local main_process_def parse_args_def)

text \<open>
  C7 (amended): on every run whose command line argparse accepts, the process exits
  with a status that is not zero exactly when the supplied URL fails validation; in that
  case the status is 1 and nothing has been requested or written (the world is
  unchanged); on every other such run the status is 0, whatever was found and whether or
  not the output file could be written.
\<close>

theorem exit_status_after_parsing:
  assumes "parse_args cl = Inr args"
  shows "(fst (main_process env cl w) \<noteq> 0 \<longleftrightarrow> validate_url env (args_url args) \<noteq> Inr True) \<and>
         (validate_url env (args_url args) \<noteq> Inr True \<longrightarrow> main_process env cl w = (1, w)) \<and>
         (validate_url env (args_url args) = Inr True \<longrightarrow> fst (main_process env cl w) = 0)"
  using assms main_exit_status [of env args w] by (simp add: main_process_def)

theorem exit_status_after_parsing_witness:
  "parse_args test_command_line = Inr valid_args \<and>
   validate_url readonly_env (args_url valid_args) = Inr True \<and>
   open_w readonly_env ''out.txt'' = Some OSError \<and>
   fst (main_process readonly_env test_command_line empty_world) = 0 \<and>
   parse_args (test_command_line\<lparr>cl_url := Some ''example.com''\<rparr>) =
     Inr (valid_args\<lparr>args_url := ''example.com''\<rparr>) \<and>
   validate_url readonly_env (args_url (valid_args\<lparr>args_url := ''example.com''\<rparr>)) \<noteq> Inr True \<and>
   main_process readonly_env (test_command_line\<lparr>cl_url := Some ''example.com''\<rparr>) empty_world =
     (1, empty_world)"
proof -
  note p = parse_test_command_line
  note q = parse_invalid_url_command_line
  have a: "validate_url readonly_env (args_url valid_args) = Inr True"
    by (simp add: valid_args_def valid_test_local)
  have o: "open_w readonly_env ''out.txt'' = Some OSError"
    by (simp add: readonly_env_def)
  have b: "validate_url readonly_env (args_url (valid_args\<lparr>args_url := ''example.com''\<rparr>)) \<noteq> Inr True"
    by (simp add: invalid_example)
  note c = exit_status_after_parsing [OF p, of readonly_env empty_world,
      THEN conjunct2, THEN conjunct2, THEN mp, OF a]
  note d = exit_status_after_parsing [OF q, of readonly_env empty_world,
      THEN conjunct2, THEN conjunct1, THEN mp, OF b]
  show ?thesis by (intro conjI p a o c q b d)
qed

subsection \<open>The output file\<close>

lemma write_all_ok:
  assumes "\<forall>cur s. file_write env path cur s = None"
  shows "fst (write_all env path ss w) = Inr () \<and>
         file_content (snd (write_all env path ss w)) path = file_content w path @ concat ss \<and>
         (ss \<noteq> [] \<or> fs w path \<noteq> None \<longrightarrow> fs (snd (write_all env path ss w)) path \<noteq> None)"
  using assms
proof (induction ss arbitrary: w)
  case Nil
  then show ?case by simp
next
  case (Cons s ss)
  let ?w' = "w\<lparr>fs := (fs w)(path \<mapsto> file_content w path @ s)\<rparr>"
  have step: "write_all env path (s # ss) w = write_all env path ss ?w'"
    using Cons.prems by (simp add: write_file_def)
  have fc: "file_content ?w' path = file_content w path @ s"
    by (simp add: file_content_def)
  have ne: "fs ?w' path \<noteq> None"
    by simp
  from Cons.IH [OF Cons.prems, of ?w'] fc ne show ?case
    unfolding step by simp
qed

lemma write_report_ok:
  assumes "open_w env path = None"
    and "\<forall>cur s. file_write env path cur s = None"
    and "\<forall>cur. file_close env path cur = None"
  shows "fs (snd (write_report env w path d)) path = Some (concat (report_writes d))"
proof -
  let ?w1 = "w\<lparr>fs := (fs w)(path \<mapsto> [])\<rparr>"
  let ?r = "write_all env path (report_writes d) ?w1"
  have w1: "fs ?w1 path \<noteq> None" "file_content ?w1 path = []"
    by (simp_all add: file_content_def)
  from write_all_ok [OF assms(2), of "report_writes d" ?w1] w1
  have ok: "fst ?r = Inr ()" and fc: "file_content (snd ?r) path = concat (report_writes d)"
    and ne: "fs (snd ?r) path \<noteq> None"
    by simp_all
  obtain w2 where r: "?r = (Inr (), w2)"
    using ok by (cases ?r) auto
  have "write_report env w path d = (Inr (), w2)"
    using assms(1,3) r by (simp add: write_report_def open_file_def close_file_def)
  moreover have "fs w2 path = Some (concat (report_writes d))"
    using fc ne r by (auto simp: file_content_def)
  ultimately show ?thesis by simp
qed

lemma entry_writes_sublist:
  assumes "e \<in> set d"
  shows "sublist (concat (entry_writes e)) (concat (report_writes d))"
proof -
  from assms obtain d1 d2 where d: "d = d1 @ e # d2"
    by (auto dest: split_list)
  have "concat (report_writes d) =
        (''Potentially sensitive files found:'' @ newline @ concat (concat (map entry_writes d1))) @
        concat (entry_writes e) @ concat (concat (map entry_writes d2))"
    by (simp add: d report_writes_def)
  then show ?thesis
    by (simp only: sublist_appendI)
qed

lemma main_output_file:
  assumes "validate_url env (args_url args) = Inr True"
    and "fst (scan_loop env (args_url args) (args_timeout args) (args_files args) w []) =
           Inr found_files"
    and "args_output args = Some path" and "path \<noteq> []"
    and "open_w env path = None"
    and "\<forall>cur s. file_write env path cur s = None"
    and "\<forall>cur. file_close env path cur = None"
  shows "fs (snd (main env args w)) path = Some (concat (report_writes found_files))"
proof -
  obtain w' where scan:
    "scan_loop env (args_url args) (args_timeout args) (args_files args) w [] =
       (Inr found_files, w')"
    using assms(2)
    by (cases "scan_loop env (args_url args) (args_timeout args) (args_files args) w []") auto
  have "snd (main env args w) = snd (write_report env w' path found_files)"
    using assms(1,3,4) scan
    by (simp add: main_def split: prod.splits sum.splits)
  then show ?thesis
    using write_report_ok [OF assms(5,6,7)] by simp
qed

text \<open>
  C8: when the URL is valid, an output path is given (a string that is not empty) and
  the file can be opened, written and closed, the file written by main holds exactly
  the line "No sensitive files found." with its newline if nothing was found, and
  otherwise holds, for every entry of the report, the block made of the URL line, the
  content line with the full body, and a line of exactly 40 dashes.
\<close>

theorem output_file_content:
  assumes "validate_url env (args_url args) = Inr True"
    and "fst (scan_loop env (args_url args) (args_timeout args) (args_files args) w []) =
           Inr found_files"
    and "args_output args = Some path" and "path \<noteq> []"
    and "open_w env path = None"
    and "\<forall>cur s. file_write env path cur s = None"
    and "\<forall>cur. file_close env path cur = None"
  shows "(found_files = [] \<longrightarrow>
            fs (snd (main env args w)) path =
              Some (''No sensitive files found.'' @ [CHR 0x0A])) \<and>
         (\<forall>(url, content) \<in> set found_files.
            \<exists>body written.
              content = Some body \<and>
              fs (snd (main env args w)) path = Some written \<and>
              sublist (''URL: '' @ url @ [CHR 0x0A] @
                       ''Content:'' @ [CHR 0x0A] @ body @ [CHR 0x0A] @
                       replicate 40 (CHR ''-'') @ [CHR 0x0A]) written)"
proof (intro conjI impI ballI)
  have fc: "fs (snd (main env args w)) path = Some (concat (report_writes found_files))"
    using assms by (rule main_output_file)
  {
    assume "found_files = []"
    with fc show "fs (snd (main env args w)) path =
        Some (''No sensitive files found.'' @ [CHR 0x0A])"
      by (simp add: report_writes_def newline_def)
  }
  {
    fix e assume e: "e \<in> set found_files"
    obtain url content where uc: "e = (url, content)" by (cases e)
    with e assms(2) obtain body where body: "content = Some body"
      using report_content_Some by blast
    have "sublist (concat (entry_writes e)) (concat (report_writes found_files))"
      using e by (rule entry_writes_sublist)
    then have "sublist (''URL: '' @ url @ [CHR 0x0A] @
                       ''Content:'' @ [CHR 0x0A] @ body @ [CHR 0x0A] @
                       replicate 40 (CHR ''-'') @ [CHR 0x0A])
                 (concat (report_writes found_files))"
      by (simp add: uc body entry_writes_def format_content_def newline_def)
    with fc body uc
    show "case e of (url, content) \<Rightarrow>
            \<exists>body written.
              content = Some body \<and>
              fs (snd (main env args w)) path = Some written \<and>
              sublist (''URL: '' @ url @ [CHR 0x0A] @
                       ''Content:'' @ [CHR 0x0A] @ body @ [CHR 0x0A] @
                       replicate 40 (CHR ''-'') @ [CHR 0x0A]) written"
      by simp
  }
qed

theorem output_file_content_witness:
  "fst (scan_loop stub_env (args_url valid_args) (args_timeout valid_args)
         (args_files valid_args) empty_world []) =
     Inr [(''http://test.local/.env'', Some ''SECRET=1'')] \<and>
   (\<exists>body written.
      Some ''SECRET=1'' = Some body \<and>
      fs (snd (main stub_env valid_args empty_world)) ''out.txt'' = Some written \<and>
      sublist (''URL: '' @ ''http://test.local/.env'' @ [CHR 0x0A] @
               ''Content:'' @ [CHR 0x0A] @ body @ [CHR 0x0A] @
               replicate 40 (CHR ''-'') @ [CHR 0x0A]) written) \<and>
   fst (scan_loop stub_env (args_url (valid_args\<lparr>args_files := [''missing.txt'']\<rparr>))
         (args_timeout (valid_args\<lparr>args_files := [''missing.txt'']\<rparr>))
         (args_files (valid_args\<lparr>args_files := [''missing.txt'']\<rparr>)) empty_world []) = Inr [] \<and>
   fs (snd (main stub_env (valid_args\<lparr>args_files := [''missing.txt'']\<rparr>) empty_world)) ''out.txt'' =
     Some (''No sensitive files found.'' @ [CHR 0x0A])"
proof -
  let ?args2 = "valid_args\<lparr>args_files := [''missing.txt'']\<rparr>"
  have v: "validate_url stub_env (args_url valid_args) = Inr True"
    by (simp add: valid_args_def valid_test_local)
  have v2: "validate_url stub_env (args_url ?args2) = Inr True"
    by (simp add: valid_args_def valid_test_local)
  have s: "fst (scan_loop stub_env (args_url valid_args) (args_timeout valid_args)
         (args_files valid_args) empty_world []) =
     Inr [(''http://test.local/.env'', Some ''SECRET=1'')]"
    by (simp only: valid_args_def args.simps stub_scan fst_conv)
  have s2: "fst (scan_loop stub_env (args_url ?args2) (args_timeout ?args2)
         (args_files ?args2) empty_world []) = Inr []"
    by (simp only: valid_args_def args.simps stub_scan_missing fst_conv)
  have out: "args_output valid_args = Some ''out.txt''" "args_output ?args2 = Some ''out.txt''"
    by (simp_all add: valid_args_def)
  have ne: "''out.txt'' \<noteq> []"
    by simp
  have io: "open_w stub_env ''out.txt'' = None"
    "\<forall>cur s. file_write stub_env ''out.txt'' cur s = None"
    "\<forall>cur. file_close stub_env ''out.txt'' cur = None"
    by (simp_all add: stub_env_def)
  have m: "(''http://test.local/.env'', Some ''SECRET=1'') \<in>
             set [(''http://test.local/.env'', Some ''SECRET=1'')]"
    by simp
  note a0 = output_file_content [OF v s out(1) ne io, THEN conjunct2, THEN bspec, OF m]
  have a: "\<exists>body written.
      Some ''SECRET=1'' = Some body \<and>
      fs (snd (main stub_env valid_args empty_world)) ''out.txt'' = Some written \<and>
      sublist (''URL: '' @ ''http://test.local/.env'' @ [CHR 0x0A] @
               ''Content:'' @ [CHR 0x0A] @ body @ [CHR 0x0A] @
               replicate 40 (CHR ''-'') @ [CHR 0x0A]) written"
    using a0 by (simp only: prod.case)
  note b = output_file_content [OF v2 s2 out(2) ne io, THEN conjunct1, THEN mp, OF refl]
  show ?thesis by (intro conjI s a s2 b)
qed

end
